theory Spec2Isabelle
  imports Main
begin

section \<open>Splash to Webflow event sync: the model of src/index.js\<close>

text \<open>
  The program reads a listing of events from Splash, reads the field schema and the
  stored items of one Webflow collection, and creates a draft item for every published
  event whose identifier is not stored yet.  The theory embeds \<^verbatim>\<open>mapSplashToWebflow\<close>,
  \<^verbatim>\<open>fetchExistingSplashIds\<close>, \<^verbatim>\<open>createWebflowEvent\<close> and \<^verbatim>\<open>sync\<close> of
  \<^verbatim>\<open>src/index.js\<close>.

  Strings are lists of 8-bit characters: the model covers ASCII text, where one
  character is one UTF-16 unit of the JavaScript string.
\<close>

subsection \<open>JavaScript values\<close>

text \<open>
  JSON values as the program meets them.  \<open>JUndefined\<close> is an absent property.
  Numbers are the integers (identifiers, HTTP status codes).
\<close>

datatype jsval =
    JUndefined
  | JNull
  | JBool bool
  | JNum int
  | JStr string
  | JObj "(string \<times> jsval) list"

text \<open>Truthiness, as \<^verbatim>\<open>if (v)\<close>, \<^verbatim>\<open>v && ...\<close> and \<^verbatim>\<open>v || ...\<close> test it.\<close>

fun truthy :: "jsval \<Rightarrow> bool" where
  "truthy JUndefined = False"
| "truthy JNull = False"
| "truthy (JBool b) = b"
| "truthy (JNum n) = (n \<noteq> 0)"
| "truthy (JStr s) = (s \<noteq> [])"
| "truthy (JObj ps) = True"

text \<open>Decimal digits of a natural number, most significant first.\<close>

definition digit_char :: "nat \<Rightarrow> char" where
  "digit_char d = ''0123456789'' ! d"

fun string_of_nat :: "nat \<Rightarrow> string" where
  "string_of_nat n =
     (if n < 10 then [digit_char n]
      else string_of_nat (n div 10) @ [digit_char (n mod 10)])"

declare string_of_nat.simps [simp del]

text \<open>\<^verbatim>\<open>String(v)\<close>.\<close>

fun js_String :: "jsval \<Rightarrow> string" where
  "js_String JUndefined = ''undefined''"
| "js_String JNull = ''null''"
| "js_String (JBool b) = (if b then ''true'' else ''false'')"
| "js_String (JNum n) =
     (if n < 0 then CHR ''-'' # string_of_nat (nat (- n)) else string_of_nat (nat n))"
| "js_String (JStr s) = s"
| "js_String (JObj ps) = ''[object Object]''"

subsection \<open>String operations of the slug pipeline\<close>

text \<open>\<^verbatim>\<open>.toLowerCase()\<close> on ASCII text.\<close>

definition lower_char :: "char \<Rightarrow> char" where
  "lower_char c =
     (case map_of (zip ''ABCDEFGHIJKLMNOPQRSTUVWXYZ'' ''abcdefghijklmnopqrstuvwxyz'') c of
        Some l \<Rightarrow> l
      | None \<Rightarrow> c)"

definition toLowerCase :: "string \<Rightarrow> string" where
  "toLowerCase s = map lower_char s"

text \<open>The character class \<^verbatim>\<open>[a-z0-9]\<close>.\<close>

definition az09 :: "char \<Rightarrow> bool" where
  "az09 c = (c \<in> set ''abcdefghijklmnopqrstuvwxyz0123456789'')"

text \<open>
  \<^verbatim>\<open>.replace(/[^a-z0-9]+/g, '-')\<close>: scanning from the left, a character of the class is
  copied; at any other character the pattern matches greedily, so the whole run of
  characters outside the class is consumed and one hyphen is written for it.
\<close>

function replace_non_az09 :: "string \<Rightarrow> string" where
  "replace_non_az09 [] = []"
| "replace_non_az09 (c # cs) =
     (if az09 c then c # replace_non_az09 cs
      else CHR ''-'' # replace_non_az09 (dropWhile (\<lambda>d. \<not> az09 d) cs))"
  by pat_completeness auto
termination
  by (relation "measure length") (auto simp: le_imp_less_Suc length_dropWhile_le)

text \<open>
  \<^verbatim>\<open>.replace(/^-|-$/g, '')\<close>: one hyphen at the very start is removed, and one hyphen
  at the very end of what follows.
\<close>

definition strip_edge_hyphens :: "string \<Rightarrow> string" where
  "strip_edge_hyphens s =
     (let s1 = (case s of [] \<Rightarrow> [] | c # cs \<Rightarrow> if c = CHR ''-'' then cs else s)
      in if s1 \<noteq> [] \<and> last s1 = CHR ''-'' then butlast s1 else s1)"

text \<open>\<^verbatim>\<open>.substring(0, 100)\<close>.\<close>

definition substring0 :: "nat \<Rightarrow> string \<Rightarrow> string" where
  "substring0 n s = take n s"

text \<open>The expression bound to \<^verbatim>\<open>const slug\<close>.\<close>

definition slugify :: "string \<Rightarrow> string" where
  "slugify title = substring0 100 (strip_edge_hyphens (replace_non_az09 (toLowerCase title)))"

subsection \<open>Source records and projected fields\<close>

text \<open>
  A record of the Splash listing, with the properties the program reads.  Text
  properties are JSON strings, or absent (\<open>None\<close>; \<^verbatim>\<open>null\<close> behaves the same in every
  test the program makes).  The identifier and the publication flag are kept as raw
  values, because the program converts the one with \<^verbatim>\<open>String(...)\<close> and compares the
  other with \<^verbatim>\<open>=== true\<close>.
\<close>

datatype event_setting = EventSetting (header_image: "string option")

datatype event_type = EventType (type_name: "string option")

record event =
  event_id :: jsval
  title :: "string option"
  event_start :: "string option"
  fq_url :: "string option"
  event_setting :: "event_setting option"
  city :: "string option"
  state :: "string option"
  event_type :: "event_type option"
  published :: jsval

text \<open>
  \<^verbatim>\<open>fieldData\<close> is a JavaScript object: keys in insertion order, each key once.
  Assigning to a key that exists replaces its value in place; a new key goes last.
\<close>

type_synonym fieldData = "(string \<times> jsval) list"

fun set_prop :: "string \<Rightarrow> jsval \<Rightarrow> fieldData \<Rightarrow> fieldData" where
  "set_prop k v [] = [(k, v)]"
| "set_prop k v ((k', v') # ps) =
     (if k' = k then (k, v) # ps else (k', v') # set_prop k v ps)"

definition keys :: "fieldData \<Rightarrow> string set" where
  "keys fd = set (map fst fd)"

text \<open>\<^verbatim>\<open>x || ''\<close> on an optional string.\<close>

definition or_empty :: "string option \<Rightarrow> string" where
  "or_empty x = (case x of None \<Rightarrow> [] | Some s \<Rightarrow> s)"

text \<open>
  The three alias searches, each of the form
  \<^verbatim>\<open>for (const k of [...]) { if (fieldSlugs.has(k) && v) { fieldData[k] = v; break; } }\<close>
\<close>

fun first_alias :: "string list \<Rightarrow> string set \<Rightarrow> string \<Rightarrow> fieldData \<Rightarrow> fieldData" where
  "first_alias [] fieldSlugs v fd = fd"
| "first_alias (k # ks) fieldSlugs v fd =
     (if k \<in> fieldSlugs \<and> v \<noteq> [] then set_prop k (JStr v) fd
      else first_alias ks fieldSlugs v fd)"

text \<open>
  \<^verbatim>\<open>new Date(s)\<close> with \<^verbatim>\<open>toISOString\<close> and \<^verbatim>\<open>toLocaleTimeString\<close> belongs to the
  JavaScript runtime and is a parameter of the model: \<open>parseDate s\<close> is \<open>None\<close> when
  the date is invalid (\<^verbatim>\<open>isNaN(dateObj.getTime())\<close>), and otherwise the ISO string and
  the formatted time of day.
\<close>

type_synonym date_lib = "string \<Rightarrow> (string \<times> string) option"

text \<open>The header image with \<^verbatim>\<open>http://\<close> at the start replaced by \<^verbatim>\<open>https://\<close>.\<close>

definition upgrade_scheme :: "string \<Rightarrow> string" where
  "upgrade_scheme u = (if take 7 u = ''http://'' then ''https://'' @ drop 7 u else u)"

definition mapSplashToWebflow :: "date_lib \<Rightarrow> event \<Rightarrow> string set \<Rightarrow> fieldData" where
  "mapSplashToWebflow parseDate splashEvent fieldSlugs =
     (let title0 = (if or_empty (title splashEvent) \<noteq> [] then or_empty (title splashEvent)
                    else ''Untitled Event'');
          slug = slugify title0;
          parsed = (if or_empty (event_start splashEvent) \<noteq> []
                    then parseDate (or_empty (event_start splashEvent)) else None);
          eventDate = (case parsed of None \<Rightarrow> [] | Some (d, t) \<Rightarrow> d);
          eventTime = (case parsed of None \<Rightarrow> [] | Some (d, t) \<Rightarrow> t);
          fd0 = [(''name'', JStr title0), (''slug'', JStr slug)];
          fd1 = (if ''splash-id'' \<in> fieldSlugs
                 then set_prop ''splash-id'' (JStr (js_String (event_id splashEvent))) fd0
                 else fd0);
          fd2 = (if ''splash-url'' \<in> fieldSlugs \<and> or_empty (fq_url splashEvent) \<noteq> []
                 then set_prop ''splash-url'' (JStr (or_empty (fq_url splashEvent))) fd1
                 else fd1);
          fd3 = (if ''date'' \<in> fieldSlugs \<and> eventDate \<noteq> []
                 then set_prop ''date'' (JStr eventDate) fd2 else fd2);
          fd4 = (if ''time'' \<in> fieldSlugs \<and> eventTime \<noteq> []
                 then set_prop ''time'' (JStr eventTime) fd3 else fd3);
          imageUrl = (case event_setting splashEvent of
                        None \<Rightarrow> []
                      | Some es \<Rightarrow> upgrade_scheme (or_empty (header_image es)));
          fd5 = (if ''thumbnail'' \<in> fieldSlugs \<and> imageUrl \<noteq> []
                 then set_prop ''thumbnail'' (JObj [(''url'', JStr imageUrl)]) fd4 else fd4);
          city0 = or_empty (city splashEvent);
          state0 = or_empty (state splashEvent);
          fd6 = first_alias [''location-city'', ''location---city'', ''locationcity'']
                  fieldSlugs city0 fd5;
          fd7 = first_alias [''location-state'', ''location---state'', ''location---state-2'',
                  ''locationstate''] fieldSlugs state0 fd6;
          eventType = (case event_type splashEvent of
                         None \<Rightarrow> []
                       | Some et \<Rightarrow> or_empty (type_name et))
      in first_alias [''event-type'', ''event-type-2'', ''eventtype'', ''type'']
           fieldSlugs eventType fd7)"

text \<open>Reading a property of \<^verbatim>\<open>fieldData\<close>; an absent key reads as \<^verbatim>\<open>undefined\<close>.\<close>

definition get_prop :: "fieldData \<Rightarrow> string \<Rightarrow> jsval" where
  "get_prop fd k = (case map_of fd k of None \<Rightarrow> JUndefined | Some v \<Rightarrow> v)"

subsection \<open>HTTP responses and errors\<close>

text \<open>
  A thrown \<^verbatim>\<open>Error\<close> with its message.  A response is either \<^verbatim>\<open>ok\<close> with its JSON
  body, or not, with the status code and the body text the program puts in the message.
\<close>

datatype error = Error (message: string)

datatype 'a response = Ok 'a | Failed nat string

definition http_error :: "string \<Rightarrow> nat \<Rightarrow> string \<Rightarrow> error" where
  "http_error what st tx = Error (what @ '': '' @ string_of_nat st @ '' - '' @ tx)"

subsection \<open>The Webflow collection\<close>

text \<open>
  A stored item.  \<open>fieldData\<close> may be absent: the scanner reads it with \<^verbatim>\<open>?.\<close>.
\<close>

record item =
  isArchived :: bool
  isDraft :: bool
  fieldData :: "fieldData option"

text \<open>
  The collection is the list of its items.  The listing endpoint serves the slice
  \<^verbatim>\<open>offset .. offset + limit\<close>.  The create endpoint either refuses the posted item
  (status and body text, chosen by the policy \<open>reject\<close> from the stored items and the
  posted one) or stores it as posted, at the end.
\<close>

type_synonym item_server = "nat \<Rightarrow> nat \<Rightarrow> item list option response"

type_synonym create_policy = "item list \<Rightarrow> item \<Rightarrow> (nat \<times> string) option"

definition webflow_get :: "item list \<Rightarrow> item_server" where
  "webflow_get items offset lim = Ok (Some (take lim (drop offset items)))"

definition webflow_post :: "create_policy \<Rightarrow> item list \<Rightarrow> item \<Rightarrow> unit response \<times> item list" where
  "webflow_post reject items payload =
     (case reject items payload of
        Some (st, tx) \<Rightarrow> (Failed st tx, items)
      | None \<Rightarrow> (Ok (), items @ [payload]))"

subsection \<open>fetchExistingSplashIds\<close>

definition limit :: nat where
  "limit = 100"

text \<open>\<^verbatim>\<open>item.fieldData?.['splash-id']\<close>\<close>

definition splash_id_of :: "item \<Rightarrow> jsval" where
  "splash_id_of it =
     (case fieldData it of None \<Rightarrow> JUndefined | Some fd \<Rightarrow> get_prop fd ''splash-id'')"

text \<open>
  \<^verbatim>\<open>existingIds\<close> is a JavaScript \<^verbatim>\<open>Set\<close>: its elements in insertion order, each once.
  Values are compared by structure, which for the strings, numbers and booleans the
  collection stores is the comparison of the \<^verbatim>\<open>Set\<close>; the program only ever looks up
  strings.
\<close>

definition set_add :: "jsval \<Rightarrow> jsval list \<Rightarrow> jsval list" where
  "set_add v s = (if v \<in> set s then s else s @ [v])"

definition collect_id :: "item \<Rightarrow> jsval list \<Rightarrow> jsval list" where
  "collect_id it existingIds =
     (if truthy (splash_id_of it) then set_add (splash_id_of it) existingIds
      else existingIds)"

text \<open>
  The \<^verbatim>\<open>while (true)\<close> loop.  Besides the set it returns the log of the page requests
  it made: the offset of each, and the number of items the page held.  It is a
  partial function: against a server that never sends a short page the loop does not
  return, which is the value \<open>None\<close>.
\<close>

partial_function (option) scan_pages ::
  "item_server \<Rightarrow> nat \<Rightarrow> jsval list \<Rightarrow> (nat \<times> nat) list
     \<Rightarrow> (error + jsval list \<times> (nat \<times> nat) list) option" where
  "scan_pages get offset existingIds pages =
     (case get offset limit of
        Failed st tx \<Rightarrow> Some (Inl (http_error ''Webflow fetch failed'' st tx))
      | Ok data \<Rightarrow>
          (if length (case data of None \<Rightarrow> [] | Some its \<Rightarrow> its) < limit
           then Some (Inr (fold collect_id (case data of None \<Rightarrow> [] | Some its \<Rightarrow> its) existingIds,
                           pages @ [(offset, length (case data of None \<Rightarrow> [] | Some its \<Rightarrow> its))]))
           else scan_pages get (offset + limit)
                  (fold collect_id (case data of None \<Rightarrow> [] | Some its \<Rightarrow> its) existingIds)
                  (pages @ [(offset, length (case data of None \<Rightarrow> [] | Some its \<Rightarrow> its))])))"

definition fetchExistingSplashIds ::
  "item_server \<Rightarrow> (error + jsval list \<times> (nat \<times> nat) list) option" where
  "fetchExistingSplashIds get = scan_pages get 0 [] []"

subsection \<open>createWebflowEvent\<close>

definition createWebflowEvent ::
  "create_policy \<Rightarrow> item list \<Rightarrow> fieldData \<Rightarrow> (error + unit) \<times> item list" where
  "createWebflowEvent reject items eventData =
     (case webflow_post reject items
             \<lparr>isArchived = False, isDraft = True, fieldData = Some eventData\<rparr> of
        (Failed st tx, items') \<Rightarrow> (Inl (http_error ''Webflow create failed'' st tx), items')
      | (Ok u, items') \<Rightarrow> (Inr (), items'))"

subsection \<open>The reads of the source and of the schema\<close>

datatype field = Field (field_slug: string)

datatype splash_body = Wrapped "event list" | Bare "event list"

definition fetchCollectionSchema :: "field list option response \<Rightarrow> error + field list" where
  "fetchCollectionSchema resp =
     (case resp of
        Failed st tx \<Rightarrow> Inl (http_error ''Webflow schema fetch failed'' st tx)
      | Ok data \<Rightarrow> Inr (case data of None \<Rightarrow> [] | Some fs \<Rightarrow> fs))"

definition getSplashAccessToken :: "string option response \<Rightarrow> error + string option" where
  "getSplashAccessToken resp =
     (case resp of
        Failed st tx \<Rightarrow> Inl (http_error ''Splash auth failed'' st tx)
      | Ok access_token \<Rightarrow> Inr access_token)"

definition fetchSplashEvents :: "splash_body response \<Rightarrow> error + event list" where
  "fetchSplashEvents resp =
     (case resp of
        Failed st tx \<Rightarrow> Inl (http_error ''Splash events fetch failed'' st tx)
      | Ok body \<Rightarrow> Inr (case body of Wrapped es \<Rightarrow> es | Bare es \<Rightarrow> es))"

subsection \<open>sync\<close>

text \<open>
  What one run can observe of the outside: the environment variables, the three
  responses to its reads, the date functions of the runtime, and the create policy of
  the collection.
\<close>

record world =
  env :: "string \<Rightarrow> string option"
  schema_response :: "field list option response"
  token_response :: "string option response"
  events_response :: "string option \<Rightarrow> splash_body response"
  dates :: date_lib
  reject :: create_policy

text \<open>
  The effects of the write phase, in order: every call of \<^verbatim>\<open>createWebflowEvent\<close> with
  the record it is for, the field data sent and the error message when it failed; every
  \<^verbatim>\<open>setTimeout\<close> delay in milliseconds; the Slack notification.
\<close>

datatype action =
    Create event fieldData "string option"
  | Delay nat
  | Notify "event list"

record progress =
  loop_synced :: nat
  loop_syncedEvents :: "event list"
  loop_errors :: "(jsval \<times> string) list"
  loop_items :: "item list"
  loop_trace :: "action list"

text \<open>
  The \<^verbatim>\<open>for (const event of newEvents)\<close> loop with its \<^verbatim>\<open>try\<close>/\<^verbatim>\<open>catch\<close>.  The delay
  is the last statement of the \<^verbatim>\<open>try\<close> block, after the create call returned.
\<close>

fun write_loop :: "date_lib \<Rightarrow> string set \<Rightarrow> create_policy \<Rightarrow> event list \<Rightarrow> progress \<Rightarrow> progress" where
  "write_loop parseDate fieldSlugs rej [] st = st"
| "write_loop parseDate fieldSlugs rej (event # rest) st =
     (case createWebflowEvent rej (loop_items st) (mapSplashToWebflow parseDate event fieldSlugs) of
        (Inr u, items') \<Rightarrow>
          write_loop parseDate fieldSlugs rej rest
            (st\<lparr>loop_synced := loop_synced st + 1,
                loop_syncedEvents := loop_syncedEvents st @ [event],
                loop_items := items',
                loop_trace := loop_trace st @
                  [Create event (mapSplashToWebflow parseDate event fieldSlugs) None, Delay 1100]\<rparr>)
      | (Inl (Error msg), items') \<Rightarrow>
          write_loop parseDate fieldSlugs rej rest
            (st\<lparr>loop_errors := loop_errors st @ [(event_id event, msg)],
                loop_items := items',
                loop_trace := loop_trace st @
                  [Create event (mapSplashToWebflow parseDate event fieldSlugs) (Some msg)]\<rparr>))"

datatype sync_result =
  SyncResult (synced: nat) (errors: "(jsval \<times> string) list option") (total: nat)

definition required :: "string list" where
  "required = [''SPLASH_CLIENT_ID'', ''SPLASH_CLIENT_SECRET'', ''SPLASH_USERNAME'',
               ''SPLASH_PASSWORD'', ''WEBFLOW_API_TOKEN'']"

fun join :: "string \<Rightarrow> string list \<Rightarrow> string" where
  "join sep [] = []"
| "join sep [x] = x"
| "join sep (x # y # ys) = x @ sep @ join sep (y # ys)"

text \<open>
  One run against the collection \<open>items0\<close>.  The value is \<open>None\<close> when the run does
  not return; otherwise the thrown error or the returned object, the collection after
  the run and the effects of the write phase.  The object returned when there is nothing
  to create has no \<^verbatim>\<open>errors\<close> property, which is \<open>errors = None\<close>.
\<close>

definition sync :: "world \<Rightarrow> item list \<Rightarrow> ((error + sync_result) \<times> item list \<times> action list) option" where
  "sync w items0 =
     (let missing = filter (\<lambda>key. or_empty (env w key) = []) required in
      if missing \<noteq> []
      then Some (Inl (Error (''Missing required env vars: '' @ join '', '' missing)), items0, [])
      else
       (case fetchCollectionSchema (schema_response w) of
          Inl e \<Rightarrow> Some (Inl e, items0, [])
        | Inr fields0 \<Rightarrow>
       (let fieldSlugs = set (map field_slug fields0) in
       (case getSplashAccessToken (token_response w) of
          Inl e \<Rightarrow> Some (Inl e, items0, [])
        | Inr accessToken \<Rightarrow>
       (case fetchSplashEvents (events_response w accessToken) of
          Inl e \<Rightarrow> Some (Inl e, items0, [])
        | Inr allSplashEvents \<Rightarrow>
       (let splashEvents = filter (\<lambda>event. published event = JBool True) allSplashEvents in
       (case fetchExistingSplashIds (webflow_get items0) of
          None \<Rightarrow> None
        | Some (Inl e) \<Rightarrow> Some (Inl e, items0, [])
        | Some (Inr (existingIds, pages)) \<Rightarrow>
       (let newEvents = filter (\<lambda>event. JStr (js_String (event_id event)) \<notin> set existingIds)
                          splashEvents in
        if newEvents = []
        then Some (Inr (SyncResult 0 None (length splashEvents)), items0, [])
        else
         (let st = write_loop (dates w) fieldSlugs (reject w) newEvents
                     \<lparr>loop_synced = 0, loop_syncedEvents = [], loop_errors = [],
                      loop_items = items0, loop_trace = []\<rparr>
          in Some (Inr (SyncResult (loop_synced st) (Some (loop_errors st)) (length splashEvents)),
                   loop_items st,
                   loop_trace st @
                     (if loop_syncedEvents st \<noteq> [] then [Notify (loop_syncedEvents st)]
                      else [])))))))))))"

subsection \<open>Reading a run\<close>

text \<open>
  What a run read, as functions of the world: the keys of the schema, the source
  listing, the dedup index scanned from the collection, and the records the diff keeps.
  Each repeats the expression \<^verbatim>\<open>sync\<close> evaluates; they only name it.
\<close>

definition schema_keys :: "world \<Rightarrow> string set" where
  "schema_keys w =
     (case fetchCollectionSchema (schema_response w) of
        Inl e \<Rightarrow> {}
      | Inr fs \<Rightarrow> set (map field_slug fs))"

definition source_events :: "world \<Rightarrow> event list" where
  "source_events w =
     (case getSplashAccessToken (token_response w) of
        Inl e \<Rightarrow> []
      | Inr accessToken \<Rightarrow>
          (case fetchSplashEvents (events_response w accessToken) of
             Inl e \<Rightarrow> []
           | Inr allSplashEvents \<Rightarrow> allSplashEvents))"

definition dedup_index :: "item list \<Rightarrow> jsval list" where
  "dedup_index items0 =
     (case fetchExistingSplashIds (webflow_get items0) of
        Some (Inr (existingIds, pages)) \<Rightarrow> existingIds
      | _ \<Rightarrow> [])"

definition new_events :: "world \<Rightarrow> item list \<Rightarrow> event list" where
  "new_events w items0 =
     filter (\<lambda>event. JStr (js_String (event_id event)) \<notin> set (dedup_index items0))
       (filter (\<lambda>event. published event = JBool True) (source_events w))"

text \<open>The variables of the write loop as \<^verbatim>\<open>sync\<close> initialises them.\<close>

definition start :: "item list \<Rightarrow> progress" where
  "start items0 =
     \<lparr>loop_synced = 0, loop_syncedEvents = [], loop_errors = [],
      loop_items = items0, loop_trace = []\<rparr>"

text \<open>
  The calls of \<^verbatim>\<open>createWebflowEvent\<close> in a trace, each with its record and outcome;
  the records alone; the failure pairs these outcomes give.
\<close>

fun creates :: "action list \<Rightarrow> (event \<times> string option) list" where
  "creates [] = []"
| "creates (Create e fd r # as) = (e, r) # creates as"
| "creates (Delay n # as) = creates as"
| "creates (Notify es # as) = creates as"

definition attempts :: "action list \<Rightarrow> event list" where
  "attempts tr = map fst (creates tr)"

fun failed_pairs :: "(event \<times> string option) list \<Rightarrow> (jsval \<times> string) list" where
  "failed_pairs [] = []"
| "failed_pairs ((e, None) # xs) = failed_pairs xs"
| "failed_pairs ((e, Some msg) # xs) = (event_id e, msg) # failed_pairs xs"

text \<open>
  The invariant of the write loop: its counter, its list of created records and its
  failure list are those of the calls made so far.
\<close>

definition loop_inv :: "progress \<Rightarrow> bool" where
  "loop_inv st \<longleftrightarrow>
     loop_synced st = length (filter (\<lambda>x. snd x = None) (creates (loop_trace st))) \<and>
     loop_syncedEvents st = map fst (filter (\<lambda>x. snd x = None) (creates (loop_trace st))) \<and>
     loop_errors st = failed_pairs (creates (loop_trace st))"

text \<open>The failure list of a returned object; none when the property is absent.\<close>

definition failures :: "sync_result \<Rightarrow> (jsval \<times> string) list" where
  "failures res = (case errors res of None \<Rightarrow> [] | Some es \<Rightarrow> es)"

text \<open>
  Pacing of a trace: no call of \<^verbatim>\<open>createWebflowEvent\<close> while an earlier call is
  still waiting for its delay of at least 1100 ms.  The flag says that a call was made
  and no such delay has passed since.
\<close>

fun paced :: "bool \<Rightarrow> action list \<Rightarrow> bool" where
  "paced pending [] = True"
| "paced pending (Create e fd r # as) = (\<not> pending \<and> paced True as)"
| "paced pending (Delay n # as) = paced (pending \<and> n < 1100) as"
| "paced pending (Notify es # as) = paced pending as"

subsection \<open>The slug as the specification words it\<close>

text \<open>
  The specification describes the slug in words: lower-case the title, replace every
  maximal run of characters outside \<^verbatim>\<open>[a-z0-9]\<close> by a single hyphen, strip leading and
  trailing hyphens, truncate to 100 characters.  \<open>spec_slug\<close> follows these words and
  not the code: \<open>hyphenate\<close> reads the title once and remembers whether it is inside a
  run, and \<open>strip_hyphens\<close> removes all the hyphens at both ends.
\<close>

fun hyphenate :: "bool \<Rightarrow> string \<Rightarrow> string" where
  "hyphenate inrun [] = []"
| "hyphenate inrun (c # cs) =
     (if az09 c then c # hyphenate False cs
      else if inrun then hyphenate True cs
      else CHR ''-'' # hyphenate True cs)"

definition strip_hyphens :: "string \<Rightarrow> string" where
  "strip_hyphens s =
     rev (dropWhile (\<lambda>c. c = CHR ''-'') (rev (dropWhile (\<lambda>c. c = CHR ''-'') s)))"

definition spec_slug :: "string \<Rightarrow> string" where
  "spec_slug t = take 100 (strip_hyphens (hyphenate False (map lower_char t)))"

subsection \<open>Concrete inputs\<close>

definition no_dates :: date_lib where
  "no_dates s = None"

definition plain_event :: "jsval \<Rightarrow> string option \<Rightarrow> jsval \<Rightarrow> event" where
  "plain_event i t p =
     \<lparr>event_id = i, title = t, event_start = None, fq_url = None, event_setting = None,
      city = None, state = None, event_type = None, published = p\<rparr>"

text \<open>A world whose reads all succeed: the schema, the listing and the policy are given.\<close>

definition test_world :: "string list \<Rightarrow> event list \<Rightarrow> create_policy \<Rightarrow> world" where
  "test_world slugs es pol =
     \<lparr>env = (\<lambda>key. Some ''set''),
      schema_response = Ok (Some (map Field slugs)),
      token_response = Ok (Some ''token''),
      events_response = (\<lambda>accessToken. Ok (Wrapped es)),
      dates = no_dates,
      reject = pol\<rparr>"

definition accept_all :: create_policy where
  "accept_all its it = None"

definition reject_all :: create_policy where
  "reject_all its it = Some (429, ''Too Many Requests'')"

text \<open>The collection refuses an item whose slug is already stored.\<close>

definition splash_slug_taken :: "item list \<Rightarrow> item \<Rightarrow> bool" where
  "splash_slug_taken its it =
     (case fieldData it of
        None \<Rightarrow> False
      | Some fd \<Rightarrow>
          get_prop fd ''slug'' \<in>
            set (map (\<lambda>i. case fieldData i of None \<Rightarrow> JUndefined | Some f \<Rightarrow> get_prop f ''slug'') its))"

definition unique_slug :: create_policy where
  "unique_slug its it =
     (if splash_slug_taken its it then Some (400, ''Duplicate slug'') else None)"

definition draft :: "fieldData \<Rightarrow> item" where
  "draft fd = \<lparr>isArchived = False, isDraft = True, fieldData = Some fd\<rparr>"

definition blank_item :: item where
  "blank_item = \<lparr>isArchived = False, isDraft = False, fieldData = None\<rparr>"

definition scenario_keys :: "string list" where
  "scenario_keys = [''name'', ''slug'', ''splash-id'']"

definition stored_two :: item where
  "stored_two =
     draft [(''name'', JStr ''Second''), (''slug'', JStr ''second''), (''splash-id'', JStr ''2'')]"

definition template_event :: event where
  "template_event = plain_event (JNum 4) (Some ''Template'') (JBool False)"

definition flagless_event :: event where
  "flagless_event = plain_event (JNum 5) (Some ''No flag'') JUndefined"

definition repeat_event :: event where
  "repeat_event = plain_event (JNum 6) (Some ''Fall Launch Event!!'') (JBool True)"

definition slug_error :: string where
  "slug_error = message (http_error ''Webflow create failed'' 400 ''Duplicate slug'')"

definition rate_error :: string where
  "rate_error = message (http_error ''Webflow create failed'' 429 ''Too Many Requests'')"

definition launch_event :: event where
  "launch_event = plain_event (JNum 1) (Some ''Fall Launch Event!!'') (JBool True)"

definition untitled_event :: event where
  "untitled_event = plain_event (JNum 2) (Some []) (JBool True)"

definition symbols_event :: event where
  "symbols_event = plain_event (JNum 3) (Some ''!!!'') (JBool True)"

section \<open>Properties of the projection\<close>

subsection \<open>Reading and writing properties\<close>

lemma map_of_set_prop: "map_of (set_prop k v fd) k' = (if k' = k then Some v else map_of fd k')"
  by (induction fd) auto

lemma map_of_if_set_prop:
  "k' \<noteq> k \<Longrightarrow> map_of (if c then set_prop k v fd else fd) k' = map_of fd k'"
  by (simp add: map_of_set_prop)

lemma map_of_first_alias: "k' \<notin> set ks \<Longrightarrow> map_of (first_alias ks S v fd) k' = map_of fd k'"
  by (induction ks) (auto simp: map_of_set_prop)

lemma keys_set_prop: "keys (set_prop k v fd) = insert k (keys fd)"
  by (induction fd) (force simp: keys_def)+

lemma keys_first_alias: "keys (first_alias ks S v fd) \<subseteq> keys fd \<union> (set ks \<inter> S)"
  by (induction ks) (auto simp: keys_set_prop)

lemma get_prop_keys: "get_prop fd k \<noteq> JUndefined \<Longrightarrow> k \<in> keys fd"
  by (force simp: get_prop_def keys_def split: option.splits dest: map_of_SomeD)

lemma slug_of_map:
  "get_prop (mapSplashToWebflow pd e S) ''slug'' =
     JStr (slugify (if or_empty (title e) \<noteq> [] then or_empty (title e) else ''Untitled Event''))"
  unfolding mapSplashToWebflow_def Let_def get_prop_def
  by (simp add: map_of_if_set_prop map_of_first_alias split del: if_split del: first_alias.simps)

lemma name_of_map:
  "get_prop (mapSplashToWebflow pd e S) ''name'' =
     JStr (if or_empty (title e) \<noteq> [] then or_empty (title e) else ''Untitled Event'')"
  unfolding mapSplashToWebflow_def Let_def get_prop_def
  by (simp add: map_of_if_set_prop map_of_first_alias split del: if_split del: first_alias.simps)

lemma splash_id_of_map:
  "''splash-id'' \<in> S \<Longrightarrow>
   get_prop (mapSplashToWebflow pd e S) ''splash-id'' = JStr (js_String (event_id e))"
  unfolding mapSplashToWebflow_def Let_def get_prop_def
  by (simp add: map_of_if_set_prop map_of_first_alias map_of_set_prop
        split del: if_split del: first_alias.simps)

lemma splash_id_of_map_absent:
  "''splash-id'' \<notin> S \<Longrightarrow> get_prop (mapSplashToWebflow pd e S) ''splash-id'' = JUndefined"
  unfolding mapSplashToWebflow_def Let_def get_prop_def
  by (simp add: map_of_if_set_prop map_of_first_alias map_of_set_prop
        split del: if_split del: first_alias.simps)

subsection \<open>The keys of the projection\<close>

lemma keys_step:
  "keys fd \<subseteq> S \<union> B \<Longrightarrow> keys (if k \<in> S \<and> c then set_prop k v fd else fd) \<subseteq> S \<union> B"
  by (auto simp: keys_set_prop)

lemma keys_step1:
  "keys fd \<subseteq> S \<union> B \<Longrightarrow> keys (if k \<in> S then set_prop k v fd else fd) \<subseteq> S \<union> B"
  by (auto simp: keys_set_prop)

lemma keys_alias_step:
  "keys fd \<subseteq> S \<union> B \<Longrightarrow> keys (first_alias ks S v fd) \<subseteq> S \<union> B"
  using keys_first_alias [of ks S v fd] by blast

lemma plain_event_fields:
  "mapSplashToWebflow no_dates (plain_event i t p) S =
     (let title0 = (if or_empty t \<noteq> [] then or_empty t else ''Untitled Event'');
          fd0 = [(''name'', JStr title0), (''slug'', JStr (slugify title0))]
      in if ''splash-id'' \<in> S then fd0 @ [(''splash-id'', JStr (js_String i))] else fd0)"
  by (simp add: mapSplashToWebflow_def plain_event_def no_dates_def or_empty_def Let_def)

text \<open>
  C2, as stated: every key of the projection is a key of the schema.  It fails on the
  empty schema, where \<^verbatim>\<open>name\<close> and \<^verbatim>\<open>slug\<close> are still written.
\<close>

theorem schema_containment_counterexample:
  "\<not> keys (mapSplashToWebflow no_dates launch_event {}) \<subseteq> {}"
  by (simp add: launch_event_def plain_event_fields keys_def Let_def)

text \<open>
  C2, amended: every key of the projection is a key of the schema or one of the two keys
  \<^verbatim>\<open>name\<close> and \<^verbatim>\<open>slug\<close>, which the object literal holds from the start.
\<close>

theorem schema_containment:
  "keys (mapSplashToWebflow parseDate splashEvent fieldSlugs) \<subseteq> fieldSlugs \<union> {''name'', ''slug''}"
  unfolding mapSplashToWebflow_def Let_def
  by (intro keys_alias_step keys_step keys_step1) (simp add: keys_def)

theorem schema_containment_witness:
  "keys (mapSplashToWebflow no_dates launch_event {''splash-id''})
     \<subseteq> {''splash-id''} \<union> {''name'', ''slug''}"
  using schema_containment [of no_dates launch_event "{''splash-id''}"] by simp

subsection \<open>The slug\<close>

lemma hyphenate_replace:
  "replace_non_az09 s = hyphenate False s \<and>
   hyphenate True s = replace_non_az09 (dropWhile (\<lambda>d. \<not> az09 d) s)"
  by (induction s) auto

lemma not_az09_hyphen: "\<not> az09 CHR ''-''"
  by (simp add: az09_def)

lemma hyphenate_True_hd: "hyphenate True s = [] \<or> az09 (hd (hyphenate True s))"
  by (induction s) auto

text \<open>No two hyphens follow each other in the output of the replacement.\<close>

lemma hyphenate_successively:
  "successively (\<lambda>a b. \<not> (a = CHR ''-'' \<and> b = CHR ''-'')) (hyphenate b s)"
proof (induction s arbitrary: b)
  case Nil
  show ?case by simp
next
  case (Cons c cs)
  have "hyphenate True cs = [] \<or> hd (hyphenate True cs) \<noteq> CHR ''-''"
    using hyphenate_True_hd [of cs] not_az09_hyphen by auto
  then show ?case
    using Cons.IH [of True] Cons.IH [of False] not_az09_hyphen
    by (cases "hyphenate True cs"; cases "hyphenate False cs") (auto simp: successively_Cons)
qed

lemma strip_left:
  assumes "successively (\<lambda>a b. \<not> (a = CHR ''-'' \<and> b = CHR ''-'')) xs"
  shows "dropWhile (\<lambda>c. c = CHR ''-'') xs =
         (case xs of [] \<Rightarrow> [] | c # cs \<Rightarrow> if c = CHR ''-'' then cs else xs)"
proof (cases xs)
  case Nil
  then show ?thesis by simp
next
  case (Cons c cs)
  with assms show ?thesis by (cases cs) (auto simp: successively_Cons)
qed

lemma strip_right:
  assumes "successively (\<lambda>a b. \<not> (a = CHR ''-'' \<and> b = CHR ''-'')) xs"
  shows "rev (dropWhile (\<lambda>c. c = CHR ''-'') (rev xs)) =
         (if xs \<noteq> [] \<and> last xs = CHR ''-'' then butlast xs else xs)"
proof (cases "xs = []")
  case True
  then show ?thesis by simp
next
  case False
  then obtain ys y where xs: "xs = ys @ [y]" by (metis rev_exhaust)
  have "(\<lambda>x y. \<not> (y = CHR ''-'' \<and> x = CHR ''-'')) = (\<lambda>a b. \<not> (a = CHR ''-'' \<and> b = CHR ''-''))"
    by (intro ext) blast
  then have "successively (\<lambda>a b. \<not> (a = CHR ''-'' \<and> b = CHR ''-'')) (rev xs)"
    using assms by (simp only: successively_rev)
  from strip_left [OF this] show ?thesis by (simp add: xs)
qed

lemma strip_edge_hyphens_spec:
  assumes "successively (\<lambda>a b. \<not> (a = CHR ''-'' \<and> b = CHR ''-'')) xs"
  shows "strip_edge_hyphens xs = strip_hyphens xs"
proof -
  let ?s1 = "case xs of [] \<Rightarrow> [] | c # cs \<Rightarrow> if c = CHR ''-'' then cs else xs"
  have s1: "successively (\<lambda>a b. \<not> (a = CHR ''-'' \<and> b = CHR ''-'')) ?s1"
    using assms by (cases xs) (auto simp: successively_Cons split: list.splits)
  show ?thesis
    unfolding strip_edge_hyphens_def strip_hyphens_def Let_def
    by (simp only: strip_left [OF assms] strip_right [OF s1])
qed

lemma slugify_spec: "slugify t = spec_slug t"
  using strip_edge_hyphens_spec [OF hyphenate_successively [of False "map lower_char t"]]
  by (simp add: slugify_def spec_slug_def substring0_def toLowerCase_def hyphenate_replace)

lemma slugify_launch: "slugify ''Fall Launch Event!!'' = ''fall-launch-event''"
  by (simp add: slugify_def substring0_def strip_edge_hyphens_def toLowerCase_def
        lower_char_def az09_def)

lemma slugify_untitled: "slugify ''Untitled Event'' = ''untitled-event''"
  by (simp add: slugify_def substring0_def strip_edge_hyphens_def toLowerCase_def
        lower_char_def az09_def)

text \<open>
  C8: the projected slug is the slug of the specification's words, computed from the
  title, or from the default title \<^verbatim>\<open>Untitled Event\<close> when the title is absent or empty.
  The title \<^verbatim>\<open>Fall Launch Event!!\<close> gives \<^verbatim>\<open>fall-launch-event\<close>; an absent or empty
  title gives the name \<^verbatim>\<open>Untitled Event\<close> and the slug \<^verbatim>\<open>untitled-event\<close>.
\<close>

theorem slug_generation:
  "get_prop (mapSplashToWebflow parseDate e fieldSlugs) ''slug'' =
     JStr (spec_slug (if or_empty (title e) = [] then ''Untitled Event'' else or_empty (title e)))
   \<and> (title e = Some ''Fall Launch Event!!'' \<longrightarrow>
        get_prop (mapSplashToWebflow parseDate e fieldSlugs) ''slug'' = JStr ''fall-launch-event'')
   \<and> (or_empty (title e) = [] \<longrightarrow>
        get_prop (mapSplashToWebflow parseDate e fieldSlugs) ''name'' = JStr ''Untitled Event'' \<and>
        get_prop (mapSplashToWebflow parseDate e fieldSlugs) ''slug'' = JStr ''untitled-event'')"
proof (intro conjI impI)
  show "get_prop (mapSplashToWebflow parseDate e fieldSlugs) ''slug'' =
     JStr (spec_slug (if or_empty (title e) = [] then ''Untitled Event'' else or_empty (title e)))"
    by (simp add: slug_of_map slugify_spec)
next
  assume "title e = Some ''Fall Launch Event!!''"
  then show "get_prop (mapSplashToWebflow parseDate e fieldSlugs) ''slug'' = JStr ''fall-launch-event''"
    by (simp add: slug_of_map or_empty_def slugify_launch)
next
  assume "or_empty (title e) = []"
  then show "get_prop (mapSplashToWebflow parseDate e fieldSlugs) ''name'' = JStr ''Untitled Event''"
    by (simp add: name_of_map)
next
  assume "or_empty (title e) = []"
  then show "get_prop (mapSplashToWebflow parseDate e fieldSlugs) ''slug'' = JStr ''untitled-event''"
    by (simp add: slug_of_map slugify_untitled)
qed

theorem slug_generation_witness:
  "title launch_event = Some ''Fall Launch Event!!'' \<and>
   get_prop (mapSplashToWebflow no_dates launch_event {}) ''slug'' = JStr ''fall-launch-event'' \<and>
   or_empty (title untitled_event) = [] \<and>
   get_prop (mapSplashToWebflow no_dates untitled_event {}) ''name'' = JStr ''Untitled Event'' \<and>
   get_prop (mapSplashToWebflow no_dates untitled_event {}) ''slug'' = JStr ''untitled-event''"
proof -
  have a: "title launch_event = Some ''Fall Launch Event!!''"
    by (simp add: launch_event_def plain_event_def)
  have b: "or_empty (title untitled_event) = []"
    by (simp add: untitled_event_def plain_event_def or_empty_def)
  show ?thesis
    using a b slug_generation [of no_dates launch_event "{}"]
      slug_generation [of no_dates untitled_event "{}"]
    by blast
qed

lemma replace_all_outside:
  assumes "s \<noteq> []" and "\<forall>c \<in> set s. \<not> az09 c"
  shows "replace_non_az09 s = ''-''"
proof -
  from assms(1) obtain c cs where s: "s = c # cs" by (cases s) auto
  with assms(2) have d: "dropWhile (\<lambda>d. \<not> az09 d) cs = []" and c: "\<not> az09 c" by simp_all
  show ?thesis unfolding s by (simp del: dropWhile_eq_Nil_conv add: d c)
qed

text \<open>
  C9: a title that is not empty but has no character of \<^verbatim>\<open>[a-z0-9]\<close> once lower-cased
  keeps its own name (the default title is not used), and its slug is the empty
  string, written under the key \<^verbatim>\<open>slug\<close> all the same.
\<close>

theorem symbol_title_empty_slug:
  assumes "title e = Some t" and "t \<noteq> []" and "\<forall>c \<in> set (toLowerCase t). \<not> az09 c"
  shows "get_prop (mapSplashToWebflow parseDate e fieldSlugs) ''name'' = JStr t \<and>
         get_prop (mapSplashToWebflow parseDate e fieldSlugs) ''slug'' = JStr [] \<and>
         ''slug'' \<in> keys (mapSplashToWebflow parseDate e fieldSlugs)"
proof -
  have "toLowerCase t \<noteq> []"
    using assms(2) by (simp add: toLowerCase_def)
  then have "replace_non_az09 (toLowerCase t) = ''-''"
    using assms(3) by (rule replace_all_outside)
  then have "slugify t = []"
    by (simp add: slugify_def strip_edge_hyphens_def substring0_def)
  then have slug: "get_prop (mapSplashToWebflow parseDate e fieldSlugs) ''slug'' = JStr []"
    using assms(1,2) by (simp add: slug_of_map or_empty_def)
  have "get_prop (mapSplashToWebflow parseDate e fieldSlugs) ''name'' = JStr t"
    using assms(1,2) by (simp add: name_of_map or_empty_def)
  moreover have "''slug'' \<in> keys (mapSplashToWebflow parseDate e fieldSlugs)"
    by (rule get_prop_keys) (simp add: slug)
  ultimately show ?thesis using slug by simp
qed

theorem symbol_title_empty_slug_witness:
  "title symbols_event = Some ''!!!'' \<and> ''!!!'' \<noteq> [] \<and>
   list_all (\<lambda>c. \<not> az09 c) (toLowerCase ''!!!'') \<and>
   get_prop (mapSplashToWebflow no_dates symbols_event {}) ''name'' = JStr ''!!!'' \<and>
   get_prop (mapSplashToWebflow no_dates symbols_event {}) ''slug'' = JStr [] \<and>
   ''slug'' \<in> keys (mapSplashToWebflow no_dates symbols_event {})"
proof -
  have t: "title symbols_event = Some ''!!!''"
    by (simp add: symbols_event_def plain_event_def)
  have n: "''!!!'' \<noteq> []" by simp
  have a: "\<forall>c \<in> set (toLowerCase ''!!!''). \<not> az09 c"
    by (simp add: toLowerCase_def lower_char_def az09_def)
  show ?thesis
    using t n a symbol_title_empty_slug [OF t n a, of no_dates "{}"]
    by (simp add: list_all_iff)
qed

section \<open>The dedup scan\<close>

subsection \<open>Against the listing endpoint of a collection\<close>

lemma fold_collect_id_split:
  "fold collect_id (drop (off + n) items) (fold collect_id (take n (drop off items)) ids) =
   fold collect_id (drop off items) ids"
proof -
  have "fold collect_id (take n (drop off items) @ drop n (drop off items)) ids =
        fold collect_id (drop off items) ids"
    by (simp only: append_take_drop_id)
  then show ?thesis by (simp add: add.commute)
qed

lemma scan_webflow_get:
  "scan_pages (webflow_get items) off ids pgs =
     Some (Inr (fold collect_id (drop off items) ids,
                pgs @ map (\<lambda>i. (off + i * limit, min limit (length items - (off + i * limit))))
                        [0..<Suc ((length items - off) div limit)]))"
proof (induction "length items - off" arbitrary: off ids pgs rule: less_induct)
  case less
  let ?n = "length items - off"
  show ?case
  proof (cases "?n < limit")
    case True
    then have "take limit (drop off items) = drop off items" by simp
    with True show ?thesis
      by (subst scan_pages.simps) (simp add: webflow_get_def)
  next
    case False
    then have len: "length (take limit (drop off items)) = limit" by simp
    have lim: "0 < limit" by (simp add: limit_def)
    have less': "length items - (off + limit) < ?n" using False lim by simp
    have d: "?n div limit = Suc ((length items - (off + limit)) div limit)"
      using False lim le_div_geq [of limit ?n] by simp
    have m: "min limit ?n = limit" using False by simp
    show ?thesis
      apply (subst scan_pages.simps)
      apply (simp only: webflow_get_def response.case option.case len less.hyps [OF less'] d
          fold_collect_id_split)
      apply (simp del: upt_Suc add: add.assoc)
      apply (subst (2) map_upt_Suc)
      apply (simp add: m del: upt_Suc)
      done
  qed
qed

lemma set_collect_id:
  "set (fold collect_id its ids) =
     set ids \<union> {v. \<exists>it \<in> set its. splash_id_of it = v \<and> truthy v}"
  by (induction its arbitrary: ids) (auto simp: collect_id_def set_add_def)

lemma length_collect_id: "length (fold collect_id its ids) \<le> length ids + length its"
proof (induction its arbitrary: ids)
  case Nil
  show ?case by simp
next
  case (Cons it its)
  have "length (collect_id it ids) \<le> Suc (length ids)"
    by (simp add: collect_id_def set_add_def)
  with Cons [of "collect_id it ids"] show ?case by simp
qed

lemma distinct_collect_id: "distinct ids \<Longrightarrow> distinct (fold collect_id its ids)"
  by (induction its arbitrary: ids) (auto simp: collect_id_def set_add_def)

lemma fetch_webflow_get:
  "fetchExistingSplashIds (webflow_get items) =
     Some (Inr (fold collect_id items [],
                map (\<lambda>i. (i * limit, min limit (length items - i * limit)))
                  [0..<Suc (length items div limit)]))"
  using scan_webflow_get [of items 0 "[]" "[]"] by (simp add: fetchExistingSplashIds_def)

lemma pages_offsets:
  "map fst (map (\<lambda>i. (i * limit, min limit (n - i * limit))) [0..<Suc k]) = map (\<lambda>i. i * 100) [0..<Suc k]"
  by (simp add: limit_def comp_def del: upt_Suc)
lemma full_page: "i < n div 100 \<Longrightarrow> min 100 (n - i * 100) = (100::nat)"
proof -
  assume "i < n div 100"
  then have "Suc i \<le> n div 100" by simp
  then have "Suc i * 100 \<le> n div 100 * 100" by (rule mult_le_mono1)
  also have "\<dots> \<le> n" by (rule div_times_less_eq_dividend)
  finally show ?thesis by simp
qed
lemma last_page: "min 100 (n - n div 100 * 100) < (100::nat)"
  by (simp add: minus_div_mult_eq_mod)

lemma pages_250:
  "length items = 250 \<Longrightarrow>
   map (\<lambda>i. (i * limit, min limit (length items - i * limit))) [0..<Suc (length items div limit)]
     = [(0, 100), (100, 100), (200, 50)]"
proof -
  assume n: "length items = 250"
  have u: "[0..<Suc 2] = [0, 1, 2]"
    by (simp add: numeral_2_eq_2)
  have "length items div limit = 2"
    by (simp add: n limit_def)
  then show ?thesis
    by (simp only: u list.map) (simp add: n limit_def)
qed

lemma scan_pages_returns:
  assumes "get (off + k * limit) limit = Ok data"
    and "length (case data of None \<Rightarrow> [] | Some its \<Rightarrow> its) < limit"
  shows "\<exists>r. scan_pages get off ids pgs = Some r \<and>
           (\<forall>ids' pgs'. r = Inr (ids', pgs') \<longrightarrow>
              (\<exists>j. j \<le> k \<and> map fst pgs' = map fst pgs @ map (\<lambda>i. off + i * limit) [0..<Suc j]))"
  using assms
proof (induction k arbitrary: off ids pgs)
  case 0
  then show ?case
    by (subst scan_pages.simps) simp
next
  case (Suc k)
  show ?case
  proof (cases "get off limit")
    case (Failed st tx)
    then show ?thesis
      by (subst scan_pages.simps) simp
  next
    case (Ok d)
    let ?its = "case d of None \<Rightarrow> [] | Some its \<Rightarrow> its"
    show ?thesis
    proof (cases "length ?its < limit")
      case True
      with Ok show ?thesis
        by (subst scan_pages.simps) simp
    next
      case False
      from Suc.prems(1) have "get (off + limit + k * limit) limit = Ok data"
        by (simp add: add.assoc)
      from Suc.IH [OF this Suc.prems(2), of "fold collect_id ?its ids" "pgs @ [(off, length ?its)]"]
      obtain r where r: "scan_pages get (off + limit) (fold collect_id ?its ids)
                           (pgs @ [(off, length ?its)]) = Some r"
        and s: "\<forall>ids' pgs'. r = Inr (ids', pgs') \<longrightarrow>
                (\<exists>j. j \<le> k \<and> map fst pgs' = map fst (pgs @ [(off, length ?its)]) @
                       map (\<lambda>i. off + limit + i * limit) [0..<Suc j])"
        by blast
      have eq: "scan_pages get off ids pgs = Some r"
        using Ok False r by (subst scan_pages.simps) simp
      have "\<exists>j. j \<le> Suc k \<and> map fst pgs' = map fst pgs @ map (\<lambda>i. off + i * limit) [0..<Suc j]"
        if "r = Inr (ids', pgs')" for ids' pgs'
      proof -
        from s that obtain j where j: "j \<le> k"
          and m: "map fst pgs' = map fst (pgs @ [(off, length ?its)]) @
                       map (\<lambda>i. off + limit + i * limit) [0..<Suc j]"
          by blast
        have "map (\<lambda>i. off + i * limit) [0..<Suc (Suc j)] =
              off # map (\<lambda>i. off + limit + i * limit) [0..<Suc j]"
          by (subst map_upt_Suc) (simp add: add.assoc del: upt_Suc)
        with m have "map fst pgs' = map fst pgs @ map (\<lambda>i. off + i * limit) [0..<Suc (Suc j)]"
          by (simp del: upt_Suc)
        with j show ?thesis
          by (intro exI [of _ "Suc j"]) (simp del: upt_Suc)
      qed
      with eq show ?thesis by blast
    qed
  qed
qed

text \<open>
  C5: against a collection served in slices of 100, the scanner returns; its requests
  are at the offsets 0, 100, 200, ...; every page but the last is full and the last one
  is short, so it stopped at the first short page; the index holds exactly the truthy
  stored \<^verbatim>\<open>splash-id\<close> values (items without one, or with an empty one, are passed
  over and raise nothing), each once, and is no larger than the collection; with 250
  items the pages are 100, 100 and 50.
\<close>

theorem dedup_scan:
  "\<exists>ids pages.
     fetchExistingSplashIds (webflow_get items) = Some (Inr (ids, pages)) \<and>
     map fst pages = map (\<lambda>i. i * 100) [0..<length pages] \<and>
     (\<forall>p \<in> set (butlast pages). snd p = 100) \<and>
     snd (last pages) < 100 \<and>
     length pages = length items div 100 + 1 \<and>
     set ids = {v. \<exists>it \<in> set items. splash_id_of it = v \<and> truthy v} \<and>
     distinct ids \<and>
     length ids \<le> length items \<and>
     (length items = 250 \<longrightarrow> pages = [(0, 100), (100, 100), (200, 50)])"
proof -
  let ?n = "length items"
  let ?pages = "map (\<lambda>i. (i * limit, min limit (?n - i * limit))) [0..<Suc (?n div limit)]"
  have len: "length ?pages = ?n div 100 + 1"
    by (simp add: limit_def)
  have off: "map fst ?pages = map (\<lambda>i. i * 100) [0..<length ?pages]"
    using pages_offsets [of ?n "?n div limit"] by (simp del: upt_Suc)
  have full: "\<forall>p \<in> set (butlast ?pages). snd p = 100"
  proof
    fix p assume "p \<in> set (butlast ?pages)"
    then have "p \<in> set (map (\<lambda>i. (i * limit, min limit (?n - i * limit))) [0..<?n div limit])"
      by (simp add: map_butlast [symmetric])
    then obtain i where "i < ?n div 100" and "p = (i * 100, min 100 (?n - i * 100))"
      by (auto simp: limit_def)
    then show "snd p = 100" by (simp add: full_page)
  qed
  have "last ?pages = (?n div limit * limit, min limit (?n - ?n div limit * limit))"
    by simp
  then have short: "snd (last ?pages) < 100"
    using last_page [of ?n] by (simp add: limit_def)
  have ids: "set (fold collect_id items []) = {v. \<exists>it \<in> set items. splash_id_of it = v \<and> truthy v}"
    by (simp add: set_collect_id)
  have dist: "distinct (fold collect_id items [])"
    by (rule distinct_collect_id) simp
  have bound: "length (fold collect_id items []) \<le> length items"
    using length_collect_id [of items "[]"] by simp
  have p250: "length items = 250 \<longrightarrow> ?pages = [(0, 100), (100, 100), (200, 50)]"
    using pages_250 [of items] by blast
  show ?thesis
    by (rule exI [of _ "fold collect_id items []"], rule exI [of _ ?pages])
      (intro conjI fetch_webflow_get len off full short ids dist bound p250)
qed

theorem dedup_scan_witness:
  "\<exists>ids. fetchExistingSplashIds (webflow_get (replicate 250 blank_item)) =
            Some (Inr (ids, [(0, 100), (100, 100), (200, 50)])) \<and>
         length ids \<le> 250"
  using dedup_scan [of "replicate 250 blank_item"] by auto

subsection \<open>Against any server\<close>

text \<open>
  C10: whatever the server answers, if the page at some offset \<open>k * 100\<close> is short, the
  pagination loop returns; when it returns a set it made at most \<open>k + 1\<close> requests, at
  the offsets 0, 100, 200, ...
\<close>

theorem scan_terminates:
  assumes "get (k * limit) limit = Ok data"
    and "length (case data of None \<Rightarrow> [] | Some its \<Rightarrow> its) < limit"
  shows "\<exists>r. fetchExistingSplashIds get = Some r \<and>
           (\<forall>ids pages. r = Inr (ids, pages) \<longrightarrow>
              length pages \<le> Suc k \<and> map fst pages = map (\<lambda>i. i * limit) [0..<length pages])"
proof -
  from assms(1) have "get (0 + k * limit) limit = Ok data" by simp
  from scan_pages_returns [where get=get and off=0 and k=k and data=data and ids="[]"
      and pgs="[]", OF this assms(2)]
  obtain r where r: "scan_pages get 0 [] [] = Some r"
    and s: "\<forall>ids' pgs'. r = Inr (ids', pgs') \<longrightarrow>
              (\<exists>j. j \<le> k \<and> map fst pgs' = map (\<lambda>i. i * limit) [0..<Suc j])"
    by auto
  have "length pages \<le> Suc k \<and> map fst pages = map (\<lambda>i. i * limit) [0..<length pages]"
    if "r = Inr (ids, pages)" for ids pages
  proof -
    from s that obtain j where j: "j \<le> k"
      and m: "map fst pages = map (\<lambda>i. i * limit) [0..<Suc j]"
      by blast
    have "length pages = Suc j"
      using arg_cong [OF m, of length] by simp
    with j m show ?thesis by simp
  qed
  with r show ?thesis
    by (auto simp: fetchExistingSplashIds_def)
qed

theorem scan_terminates_witness:
  "\<exists>r. fetchExistingSplashIds (webflow_get (replicate 250 blank_item)) = Some r"
proof -
  have a: "webflow_get (replicate 250 blank_item) (2 * limit) limit = Ok (Some (replicate 50 blank_item))"
    by (simp add: webflow_get_def limit_def)
  have b: "length (case Some (replicate 50 blank_item) of None \<Rightarrow> [] | Some its \<Rightarrow> its) < limit"
    by (simp add: limit_def)
  from scan_terminates [where get="webflow_get (replicate 250 blank_item)" and k=2
      and data="Some (replicate 50 blank_item)", OF a b]
  show ?thesis by blast
qed

section \<open>The write phase\<close>

subsection \<open>The loop\<close>

lemma creates_append: "creates (xs @ ys) = creates xs @ creates ys"
  by (induction xs rule: creates.induct) auto

lemma failed_pairs_append: "failed_pairs (xs @ ys) = failed_pairs xs @ failed_pairs ys"
  by (induction xs rule: failed_pairs.induct) auto

lemma createWebflowEvent_eq:
  "createWebflowEvent rej its fd =
     (case rej its (draft fd) of
        None \<Rightarrow> (Inr (), its @ [draft fd])
      | Some (c, tx) \<Rightarrow> (Inl (http_error ''Webflow create failed'' c tx), its))"
  by (simp add: createWebflowEvent_def webflow_post_def draft_def split: option.splits)

text \<open>One pass of the loop body, by the answer of the collection.\<close>

lemma write_loop_created:
  assumes "rej (loop_items st) (draft (mapSplashToWebflow pd e S)) = None"
  shows "write_loop pd S rej (e # es) st =
          write_loop pd S rej es
            (st\<lparr>loop_synced := loop_synced st + 1,
                loop_syncedEvents := loop_syncedEvents st @ [e],
                loop_items := loop_items st @ [draft (mapSplashToWebflow pd e S)],
                loop_trace := loop_trace st @
                  [Create e (mapSplashToWebflow pd e S) None, Delay 1100]\<rparr>)"
  using assms by (simp add: createWebflowEvent_eq)

lemma write_loop_failed:
  assumes "rej (loop_items st) (draft (mapSplashToWebflow pd e S)) = Some (c, tx)"
  shows "write_loop pd S rej (e # es) st =
          write_loop pd S rej es
            (st\<lparr>loop_errors := loop_errors st @
                  [(event_id e, message (http_error ''Webflow create failed'' c tx))],
                loop_items := loop_items st,
                loop_trace := loop_trace st @
                  [Create e (mapSplashToWebflow pd e S)
                     (Some (message (http_error ''Webflow create failed'' c tx)))]\<rparr>)"
  using assms by (simp add: createWebflowEvent_eq http_error_def)

lemma write_loop_creates:
  "map fst (creates (loop_trace (write_loop pd S rej es st))) =
     map fst (creates (loop_trace st)) @ es"
proof (induction es arbitrary: st)
  case Nil
  show ?case by simp
next
  case (Cons e es)
  show ?case
  proof (cases "rej (loop_items st) (draft (mapSplashToWebflow pd e S))")
    case None
    show ?thesis
      by (simp only: write_loop_created [where rej=rej and st=st and pd=pd and e=e and S=S, OF None] Cons.IH) (simp add: creates_append)
  next
    case (Some a)
    then have a: "rej (loop_items st) (draft (mapSplashToWebflow pd e S)) = Some (fst a, snd a)"
      by simp
    show ?thesis
      by (simp only: write_loop_failed [where rej=rej and st=st and pd=pd and e=e and S=S, OF a] Cons.IH) (simp add: creates_append)
  qed
qed

lemma write_loop_inv: "loop_inv st \<Longrightarrow> loop_inv (write_loop pd S rej es st)"
proof (induction es arbitrary: st)
  case Nil
  then show ?case by simp
next
  case (Cons e es)
  show ?case
  proof (cases "rej (loop_items st) (draft (mapSplashToWebflow pd e S))")
    case None
    show ?thesis
      unfolding write_loop_created [where rej=rej and st=st and pd=pd and e=e and S=S, OF None]
      by (rule Cons.IH) (use Cons.prems in \<open>simp add: loop_inv_def creates_append failed_pairs_append\<close>)
  next
    case (Some a)
    then have a: "rej (loop_items st) (draft (mapSplashToWebflow pd e S)) = Some (fst a, snd a)"
      by simp
    show ?thesis
      unfolding write_loop_failed [where rej=rej and st=st and pd=pd and e=e and S=S, OF a]
      by (rule Cons.IH) (use Cons.prems in \<open>simp add: loop_inv_def creates_append failed_pairs_append\<close>)
  qed
qed

lemma dedup_index_eq: "dedup_index items0 = fold collect_id items0 []"
  by (simp add: dedup_index_def fetch_webflow_get)

text \<open>The value of a run whose reads succeed.\<close>

lemma sync_reads_ok:
  assumes m: "filter (\<lambda>key. or_empty (env w key) = []) required = []"
    and fs: "fetchCollectionSchema (schema_response w) = Inr fs"
    and tok: "getSplashAccessToken (token_response w) = Inr tok"
    and es: "fetchSplashEvents (events_response w tok) = Inr es"
  shows "sync w items0 =
      (if new_events w items0 = []
       then Some (Inr (SyncResult 0 None
                    (length (filter (\<lambda>event. published event = JBool True) (source_events w)))),
                  items0, [])
       else Some (Inr (SyncResult
                    (loop_synced (write_loop (dates w) (schema_keys w) (reject w)
                                    (new_events w items0) (start items0)))
                    (Some (loop_errors (write_loop (dates w) (schema_keys w) (reject w)
                                    (new_events w items0) (start items0))))
                    (length (filter (\<lambda>event. published event = JBool True) (source_events w)))),
                  loop_items (write_loop (dates w) (schema_keys w) (reject w)
                                    (new_events w items0) (start items0)),
                  loop_trace (write_loop (dates w) (schema_keys w) (reject w)
                                    (new_events w items0) (start items0)) @
                  (if loop_syncedEvents (write_loop (dates w) (schema_keys w) (reject w)
                                    (new_events w items0) (start items0)) \<noteq> []
                   then [Notify (loop_syncedEvents (write_loop (dates w) (schema_keys w) (reject w)
                                    (new_events w items0) (start items0)))]
                   else [])))"
proof -
  have k: "schema_keys w = set (map field_slug fs)"
    by (simp add: schema_keys_def fs)
  have s: "source_events w = es"
    by (simp add: source_events_def tok es)
  have n: "new_events w items0 =
      filter (\<lambda>event. JStr (js_String (event_id event)) \<notin> set (fold collect_id items0 []))
        (filter (\<lambda>event. published event = JBool True) es)"
    by (simp add: new_events_def s dedup_index_eq)
  show ?thesis
    unfolding sync_def Let_def s
    by (simp only: m fs tok es k [symmetric] n [symmetric] start_def [symmetric]
          fetch_webflow_get sum.case option.case prod.case simp_thms if_False if_True)
qed

text \<open>A run that returns an object made its four reads.\<close>

lemma sync_reads:
  assumes "sync w items0 = Some (Inr res, items1, tr)"
  shows "filter (\<lambda>key. or_empty (env w key) = []) required = [] \<and>
         (\<exists>fs tok es. fetchCollectionSchema (schema_response w) = Inr fs \<and>
            getSplashAccessToken (token_response w) = Inr tok \<and>
            fetchSplashEvents (events_response w tok) = Inr es)"
proof -
  have m: "filter (\<lambda>key. or_empty (env w key) = []) required = []"
    using assms by (cases "filter (\<lambda>key. or_empty (env w key) = []) required = []")
      (simp_all add: sync_def Let_def)
  obtain fs where fs: "fetchCollectionSchema (schema_response w) = Inr fs"
    using assms m by (cases "fetchCollectionSchema (schema_response w)")
      (simp_all add: sync_def Let_def)
  obtain tok where tok: "getSplashAccessToken (token_response w) = Inr tok"
    using assms m fs by (cases "getSplashAccessToken (token_response w)")
      (simp_all add: sync_def Let_def)
  obtain es where es: "fetchSplashEvents (events_response w tok) = Inr es"
    using assms m fs tok by (cases "fetchSplashEvents (events_response w tok)")
      (simp_all add: sync_def Let_def)
  from m fs tok es show ?thesis by blast
qed

lemma creates_notify: "creates (tr @ (if c then [Notify es] else [])) = creates tr"
  by (simp add: creates_append)

lemma start_inv: "loop_inv (start items0)"
  by (simp add: loop_inv_def start_def)

text \<open>What a run that returns an object returned, in terms of its calls.\<close>

lemma sync_completed:
  assumes "sync w items0 = Some (Inr res, items1, tr)"
  shows "map fst (creates tr) = new_events w items0"
    and "total res = length (filter (\<lambda>event. published event = JBool True) (source_events w))"
    and "synced res = length (filter (\<lambda>x. snd x = None) (creates tr))"
    and "failures res = failed_pairs (creates tr)"
    and "errors res = None \<longleftrightarrow> new_events w items0 = []"
proof -
  from sync_reads [OF assms] obtain fs tok es
    where r: "filter (\<lambda>key. or_empty (env w key) = []) required = []"
      "fetchCollectionSchema (schema_response w) = Inr fs"
      "getSplashAccessToken (token_response w) = Inr tok"
      "fetchSplashEvents (events_response w tok) = Inr es"
    by blast
  let ?st = "write_loop (dates w) (schema_keys w) (reject w) (new_events w items0) (start items0)"
  have inv: "loop_inv ?st"
    by (rule write_loop_inv) (rule start_inv)
  have att: "map fst (creates (loop_trace ?st)) = new_events w items0"
    by (simp add: write_loop_creates start_def)
  note eq = assms [unfolded sync_reads_ok [OF r]]
  show "map fst (creates tr) = new_events w items0"
    using eq att by (auto simp: creates_append split: if_splits)
  show "total res = length (filter (\<lambda>event. published event = JBool True) (source_events w))"
    using eq by (auto split: if_splits)
  show "synced res = length (filter (\<lambda>x. snd x = None) (creates tr))"
    using eq inv by (auto simp: creates_append loop_inv_def split: if_splits)
  show "failures res = failed_pairs (creates tr)"
    using eq inv by (auto simp: creates_append loop_inv_def failures_def split: if_splits)
  show "errors res = None \<longleftrightarrow> new_events w items0 = []"
    using eq by (auto split: if_splits)
qed

lemma failed_pairs_none: "\<forall>x \<in> set xs. snd x = None \<Longrightarrow> failed_pairs xs = []"
  by (induction xs rule: failed_pairs.induct) auto

lemma one_failure:
  assumes k: "k < length xs"
    and f: "snd (xs ! k) = Some msg"
    and o: "\<forall>j < length xs. j \<noteq> k \<longrightarrow> snd (xs ! j) = None"
  shows "length (filter (\<lambda>x. snd x = None) xs) = length xs - 1"
    and "failed_pairs xs = [(event_id (fst (xs ! k)), msg)]"
proof -
  have xs: "xs = take k xs @ xs ! k # drop (Suc k) xs"
    using k by (rule id_take_nth_drop)
  have t: "\<forall>x \<in> set (take k xs). snd x = None"
  proof
    fix x assume "x \<in> set (take k xs)"
    then obtain j where "j < k" "x = xs ! j"
      using k by (auto simp: in_set_conv_nth)
    with o k show "snd x = None" by simp
  qed
  have d: "\<forall>x \<in> set (drop (Suc k) xs). snd x = None"
  proof
    fix x assume "x \<in> set (drop (Suc k) xs)"
    then obtain i where i: "i < length (drop (Suc k) xs)" "drop (Suc k) xs ! i = x"
      unfolding in_set_conv_nth by blast
    from i(1) have l: "Suc k + i < length xs" by simp
    from i have x: "x = xs ! (Suc k + i)" by simp
    from o [rule_format, of "Suc k + i"] l show "snd x = None"
      by (simp add: x)
  qed
  obtain e where e: "xs ! k = (e, Some msg)"
    using f by (cases "xs ! k") auto
  have "length (filter (\<lambda>x. snd x = None) (take k xs @ xs ! k # drop (Suc k) xs)) =
        length (take k xs) + length (drop (Suc k) xs)"
    using t d by (simp add: e filter_id_conv)
  then have "length (filter (\<lambda>x. snd x = None) xs) = length (take k xs) + length (drop (Suc k) xs)"
    by (simp only: xs [symmetric])
  then show "length (filter (\<lambda>x. snd x = None) xs) = length xs - 1"
    using k by simp
  have "failed_pairs (take k xs @ xs ! k # drop (Suc k) xs) = [(event_id (fst (xs ! k)), msg)]"
    by (simp add: failed_pairs_append failed_pairs_none [OF t] failed_pairs_none [OF d] e)
  then show "failed_pairs xs = [(event_id (fst (xs ! k)), msg)]"
    by (simp only: xs [symmetric])
qed

text \<open>A run that throws made no create call and left the collection as it was.\<close>

lemma sync_aborted:
  assumes "sync w items0 = Some (Inl e, items1, tr)"
  shows "tr = [] \<and> items1 = items0"
  using assms
  by (auto simp: sync_def Let_def fetch_webflow_get split: if_splits sum.splits)

subsection \<open>Concrete runs\<close>

lemma test_world_reads:
  "filter (\<lambda>key. or_empty (env (test_world slugs es pol) key) = []) required = []"
  "fetchCollectionSchema (schema_response (test_world slugs es pol)) = Inr (map Field slugs)"
  "getSplashAccessToken (token_response (test_world slugs es pol)) = Inr (Some ''token'')"
  "fetchSplashEvents (events_response (test_world slugs es pol) (Some ''token'')) = Inr es"
  by (simp_all add: test_world_def or_empty_def fetchCollectionSchema_def
        getSplashAccessToken_def fetchSplashEvents_def)

lemma test_world_simps [simp]:
  "schema_keys (test_world slugs es pol) = set slugs"
  "source_events (test_world slugs es pol) = es"
  "dates (test_world slugs es pol) = no_dates"
  "reject (test_world slugs es pol) = pol"
  by (simp_all add: schema_keys_def source_events_def test_world_reads comp_def)
     (simp_all add: test_world_def)

lemma sync_test_world:
  "sync (test_world slugs es pol) items0 =
     (let new = new_events (test_world slugs es pol) items0;
          st = write_loop no_dates (set slugs) pol new (start items0);
          n = length (filter (\<lambda>event. published event = JBool True) es)
      in if new = [] then Some (Inr (SyncResult 0 None n), items0, [])
         else Some (Inr (SyncResult (loop_synced st) (Some (loop_errors st)) n),
                    loop_items st,
                    loop_trace st @
                      (if loop_syncedEvents st \<noteq> [] then [Notify (loop_syncedEvents st)] else [])))"
  by (simp add: sync_reads_ok [OF test_world_reads] Let_def cong: if_cong)

lemma string_of_nat_digit:
  "string_of_nat (Suc 0) = ''1''" "string_of_nat 2 = ''2''" "string_of_nat 3 = ''3''"
  "string_of_nat 4 = ''4''" "string_of_nat 5 = ''5''" "string_of_nat 6 = ''6''"
  by (simp_all add: string_of_nat.simps digit_char_def)



lemma new_events_fresh:
  "new_events (test_world slugs es pol) [] = filter (\<lambda>event. published event = JBool True) es"
  by (simp add: new_events_def dedup_index_eq)

lemma plain_published [simp]:
  "published (plain_event i t p) = p" "event_id (plain_event i t p) = i"
  by (simp_all add: plain_event_def)

lemma fieldData_draft [simp]: "fieldData (draft fd) = Some fd"
  by (simp add: draft_def)

lemma unique_slug_draft:
  "unique_slug its (draft fd) =
     (if get_prop fd ''slug'' \<in>
           set (map (\<lambda>i. case fieldData i of None \<Rightarrow> JUndefined | Some f \<Rightarrow> get_prop f ''slug'') its)
      then Some (400, ''Duplicate slug'') else None)"
  by (simp add: unique_slug_def splash_slug_taken_def)

lemma slugify_symbols: "slugify ''!!!'' = []"
  by (simp add: slugify_def substring0_def strip_edge_hyphens_def toLowerCase_def
        lower_char_def az09_def)

lemma event_slugs:
  "get_prop (mapSplashToWebflow pd launch_event S) ''slug'' = JStr ''fall-launch-event''"
  "get_prop (mapSplashToWebflow pd repeat_event S) ''slug'' = JStr ''fall-launch-event''"
  "get_prop (mapSplashToWebflow pd symbols_event S) ''slug'' = JStr []"
  by (simp_all add: slug_of_map launch_event_def repeat_event_def symbols_event_def
        plain_event_def or_empty_def slugify_launch slugify_symbols)

lemma event_ids:
  "event_id launch_event = JNum 1" "event_id untitled_event = JNum 2"
  "event_id symbols_event = JNum 3" "event_id template_event = JNum 4"
  "event_id flagless_event = JNum 5" "event_id repeat_event = JNum 6"
  by (simp_all add: launch_event_def untitled_event_def symbols_event_def template_event_def
        flagless_event_def repeat_event_def)

lemma event_flags:
  "published launch_event = JBool True" "published untitled_event = JBool True"
  "published symbols_event = JBool True" "published template_event = JBool False"
  "published flagless_event = JUndefined" "published repeat_event = JBool True"
  by (simp_all add: launch_event_def untitled_event_def symbols_event_def template_event_def
        flagless_event_def repeat_event_def)

lemma isolation_run:
  "sync (test_world scenario_keys [launch_event, repeat_event, symbols_event] unique_slug) [] =
   Some (Inr (SyncResult 2 (Some [(JNum 6, slug_error)]) 3),
         [draft (mapSplashToWebflow no_dates launch_event (set scenario_keys)),
          draft (mapSplashToWebflow no_dates symbols_event (set scenario_keys))],
         [Create launch_event (mapSplashToWebflow no_dates launch_event (set scenario_keys)) None,
          Delay 1100,
          Create repeat_event (mapSplashToWebflow no_dates repeat_event (set scenario_keys))
            (Some slug_error),
          Create symbols_event (mapSplashToWebflow no_dates symbols_event (set scenario_keys)) None,
          Delay 1100,
          Notify [launch_event, symbols_event]])"
  unfolding sync_test_world new_events_fresh Let_def
  by (simp add: start_def createWebflowEvent_eq unique_slug_draft event_slugs event_ids
        event_flags slug_error_def http_error_def)

lemma rejected_run:
  "sync (test_world scenario_keys [launch_event, symbols_event] reject_all) [] =
   Some (Inr (SyncResult 0 (Some [(JNum 1, rate_error), (JNum 3, rate_error)]) 2), [],
         [Create launch_event (mapSplashToWebflow no_dates launch_event (set scenario_keys))
            (Some rate_error),
          Create symbols_event (mapSplashToWebflow no_dates symbols_event (set scenario_keys))
            (Some rate_error)])"
  unfolding sync_test_world new_events_fresh Let_def
  by (simp add: start_def createWebflowEvent_eq reject_all_def event_ids event_flags
        rate_error_def http_error_def)

lemma nothing_new_run:
  "sync (test_world scenario_keys [untitled_event] accept_all) [stored_two] =
   Some (Inr (SyncResult 0 None 1), [stored_two], [])"
  unfolding sync_test_world Let_def
  by (simp add: new_events_def dedup_index_eq collect_id_def splash_id_of_def stored_two_def
        get_prop_def set_add_def event_ids event_flags string_of_nat_digit)

lemma first_run:
  "sync (test_world scenario_keys [launch_event, symbols_event] accept_all) [] =
   Some (Inr (SyncResult 2 (Some []) 2),
         [draft (mapSplashToWebflow no_dates launch_event (set scenario_keys)),
          draft (mapSplashToWebflow no_dates symbols_event (set scenario_keys))],
         [Create launch_event (mapSplashToWebflow no_dates launch_event (set scenario_keys)) None,
          Delay 1100,
          Create symbols_event (mapSplashToWebflow no_dates symbols_event (set scenario_keys)) None,
          Delay 1100,
          Notify [launch_event, symbols_event]])"
  unfolding sync_test_world new_events_fresh Let_def
  by (simp add: start_def createWebflowEvent_eq accept_all_def event_flags)

lemma draft_no_id:
  "splash_id_of (draft (mapSplashToWebflow no_dates e {''name'', ''slug''})) = JUndefined"
  by (simp add: splash_id_of_def splash_id_of_map_absent)

lemma no_id_first_run:
  "sync (test_world [''name'', ''slug''] [launch_event] accept_all) [] =
   Some (Inr (SyncResult 1 (Some []) 1),
         [draft (mapSplashToWebflow no_dates launch_event {''name'', ''slug''})],
         [Create launch_event (mapSplashToWebflow no_dates launch_event {''name'', ''slug''}) None,
          Delay 1100,
          Notify [launch_event]])"
  unfolding sync_test_world new_events_fresh Let_def
  by (simp add: start_def createWebflowEvent_eq accept_all_def event_flags)

lemma no_id_second_run:
  "sync (test_world [''name'', ''slug''] [launch_event] accept_all)
     [draft (mapSplashToWebflow no_dates launch_event {''name'', ''slug''})] =
   Some (Inr (SyncResult 1 (Some []) 1),
         [draft (mapSplashToWebflow no_dates launch_event {''name'', ''slug''}),
          draft (mapSplashToWebflow no_dates launch_event {''name'', ''slug''})],
         [Create launch_event (mapSplashToWebflow no_dates launch_event {''name'', ''slug''}) None,
          Delay 1100,
          Notify [launch_event]])"
  unfolding sync_test_world Let_def
  by (simp add: new_events_def dedup_index_eq collect_id_def draft_no_id event_flags
        start_def createWebflowEvent_eq accept_all_def)

subsection \<open>The diff\<close>




subsection \<open>One failed create\<close>

text \<open>
  C3: when exactly one create call of a run fails, the one for the \<open>k\<close>-th new record,
  with message \<open>msg\<close>, and all the others succeed, then every new record was attempted
  once, in the order of the listing, the count of created records is one less than the
  number of new records, and the failure list is the single pair of the \<open>k\<close>-th
  record's identifier and \<open>msg\<close>.
\<close>

theorem partial_failure_isolation:
  assumes run: "sync w items0 = Some (Inr res, items1, tr)"
    and k: "k < length (creates tr)"
    and f: "snd (creates tr ! k) = Some msg"
    and o: "\<forall>j < length (creates tr). j \<noteq> k \<longrightarrow> snd (creates tr ! j) = None"
  shows "attempts tr = new_events w items0 \<and>
         synced res = length (new_events w items0) - 1 \<and>
         errors res = Some [(event_id (new_events w items0 ! k), msg)]"
proof -
  have a: "map fst (creates tr) = new_events w items0"
    by (rule sync_completed(1) [OF run])
  have len: "length (creates tr) = length (new_events w items0)"
    using arg_cong [OF a, of length] by simp
  have att: "attempts tr = new_events w items0"
    by (simp add: attempts_def a)
  have cnt: "synced res = length (new_events w items0) - 1"
    using sync_completed(3) [OF run] one_failure(1) [OF k f o] len by simp
  have "fst (creates tr ! k) = new_events w items0 ! k"
    using k nth_map [of k "creates tr" fst] by (simp add: a)
  then have "failures res = [(event_id (new_events w items0 ! k), msg)]"
    using sync_completed(4) [OF run] one_failure(2) [OF k f o] by simp
  moreover have "errors res \<noteq> None"
    using sync_completed(5) [OF run] k len by auto
  ultimately have "errors res = Some [(event_id (new_events w items0 ! k), msg)]"
    by (auto simp: failures_def split: option.splits)
  with att cnt show ?thesis by simp
qed

theorem partial_failure_isolation_witness:
  "sync (test_world scenario_keys [launch_event, repeat_event, symbols_event] unique_slug) [] =
   Some (Inr (SyncResult 2 (Some [(JNum 6, slug_error)]) 3),
         [draft (mapSplashToWebflow no_dates launch_event (set scenario_keys)),
          draft (mapSplashToWebflow no_dates symbols_event (set scenario_keys))],
         [Create launch_event (mapSplashToWebflow no_dates launch_event (set scenario_keys)) None,
          Delay 1100,
          Create repeat_event (mapSplashToWebflow no_dates repeat_event (set scenario_keys))
            (Some slug_error),
          Create symbols_event (mapSplashToWebflow no_dates symbols_event (set scenario_keys)) None,
          Delay 1100,
          Notify [launch_event, symbols_event]]) \<and>
   new_events (test_world scenario_keys [launch_event, repeat_event, symbols_event] unique_slug) []
     = [launch_event, repeat_event, symbols_event] \<and>
   synced (SyncResult 2 (Some [(JNum 6, slug_error)]) 3) =
     length (new_events (test_world scenario_keys [launch_event, repeat_event, symbols_event]
                unique_slug) []) - 1 \<and>
   errors (SyncResult 2 (Some [(JNum 6, slug_error)]) 3) =
     Some [(event_id (new_events (test_world scenario_keys
                [launch_event, repeat_event, symbols_event] unique_slug) [] ! 1), slug_error)]"
proof -
  let ?tr = "[Create launch_event (mapSplashToWebflow no_dates launch_event (set scenario_keys)) None,
          Delay 1100,
          Create repeat_event (mapSplashToWebflow no_dates repeat_event (set scenario_keys))
            (Some slug_error),
          Create symbols_event (mapSplashToWebflow no_dates symbols_event (set scenario_keys)) None,
          Delay 1100,
          Notify [launch_event, symbols_event]]"
  have k: "1 < length (creates ?tr)" by simp
  have f: "snd (creates ?tr ! 1) = Some slug_error" by simp
  have o: "\<forall>j < length (creates ?tr). j \<noteq> 1 \<longrightarrow> snd (creates ?tr ! j) = None"
    by (simp add: nth_Cons' less_Suc_eq numeral_3_eq_3)
  have n: "new_events (test_world scenario_keys [launch_event, repeat_event, symbols_event]
             unique_slug) [] = [launch_event, repeat_event, symbols_event]"
    by (simp add: new_events_fresh event_flags)
  from partial_failure_isolation [OF isolation_run k f o] isolation_run n
  show ?thesis by simp
qed

subsection \<open>The returned object and the pacing\<close>

text \<open>
  C6: a run that finds nothing new returns the object of the early \<^verbatim>\<open>return\<close>, which
  has \<^verbatim>\<open>synced\<close> and \<^verbatim>\<open>total\<close> and no \<^verbatim>\<open>errors\<close> property.  Here the collection
  already stores the identifier 2 of the only published source record.
\<close>

theorem empty_diff_result_lacks_errors:
  "sync (test_world scenario_keys [untitled_event] accept_all) [stored_two] =
     Some (Inr (SyncResult 0 None 1), [stored_two], []) \<and>
   errors (SyncResult 0 None 1) = None"
  using nothing_new_run by simp

text \<open>The predicate holds of a run whose create calls all succeed.\<close>

lemma paced_first_run:
  "paced False
     [Create launch_event (mapSplashToWebflow no_dates launch_event (set scenario_keys)) None,
      Delay 1100,
      Create symbols_event (mapSplashToWebflow no_dates symbols_event (set scenario_keys)) None,
      Delay 1100,
      Notify [launch_event, symbols_event]]"
  by simp

text \<open>
  C7: the delay is inside the \<^verbatim>\<open>try\<close> block, so a create call that throws is not
  followed by it.  Against a collection that refuses every item, the two create calls of
  this run follow each other with no delay between them.
\<close>

theorem failed_create_not_delayed:
  "sync (test_world scenario_keys [launch_event, symbols_event] reject_all) [] =
   Some (Inr (SyncResult 0 (Some [(JNum 1, rate_error), (JNum 3, rate_error)]) 2), [],
         [Create launch_event (mapSplashToWebflow no_dates launch_event (set scenario_keys))
            (Some rate_error),
          Create symbols_event (mapSplashToWebflow no_dates symbols_event (set scenario_keys))
            (Some rate_error)]) \<and>
   \<not> paced False
         [Create launch_event (mapSplashToWebflow no_dates launch_event (set scenario_keys))
            (Some rate_error),
          Create symbols_event (mapSplashToWebflow no_dates symbols_event (set scenario_keys))
            (Some rate_error)]"
  using rejected_run by simp

section \<open>Two runs in a row\<close>

lemma write_loop_cover:
  "set (loop_items st) \<subseteq> set (loop_items (write_loop pd S rej es st)) \<and>
   set (loop_errors st) \<subseteq> set (loop_errors (write_loop pd S rej es st)) \<and>
   (\<forall>e \<in> set es.
       draft (mapSplashToWebflow pd e S) \<in> set (loop_items (write_loop pd S rej es st)) \<or>
       (\<exists>m. (event_id e, m) \<in> set (loop_errors (write_loop pd S rej es st))))"
proof (induction es arbitrary: st)
  case Nil
  show ?case by simp
next
  case (Cons e es)
  show ?case
  proof (cases "rej (loop_items st) (draft (mapSplashToWebflow pd e S))")
    case None
    note step = write_loop_created [where rej=rej and st=st and pd=pd and e=e and S=S, OF None]
    show ?thesis
      unfolding step
      using Cons.IH [of "st\<lparr>loop_synced := loop_synced st + 1,
                loop_syncedEvents := loop_syncedEvents st @ [e],
                loop_items := loop_items st @ [draft (mapSplashToWebflow pd e S)],
                loop_trace := loop_trace st @
                  [Create e (mapSplashToWebflow pd e S) None, Delay 1100]\<rparr>"]
      by auto
  next
    case (Some a)
    then have a: "rej (loop_items st) (draft (mapSplashToWebflow pd e S)) = Some (fst a, snd a)"
      by simp
    note step = write_loop_failed [where rej=rej and st=st and pd=pd and e=e and S=S, OF a]
    show ?thesis
      unfolding step
      using Cons.IH [of "st\<lparr>loop_errors := loop_errors st @
                  [(event_id e, message (http_error ''Webflow create failed'' (fst a) (snd a)))],
                loop_items := loop_items st,
                loop_trace := loop_trace st @
                  [Create e (mapSplashToWebflow pd e S)
                     (Some (message (http_error ''Webflow create failed'' (fst a) (snd a))))]\<rparr>"]
      by auto
  qed
qed

lemma set_dedup_index:
  "set (dedup_index items0) = {v. \<exists>it \<in> set items0. splash_id_of it = v \<and> truthy v}"
  by (simp add: dedup_index_eq set_collect_id)

lemma splash_id_of_draft:
  "''splash-id'' \<in> S \<Longrightarrow>
   splash_id_of (draft (mapSplashToWebflow pd e S)) = JStr (js_String (event_id e))"
  by (simp add: splash_id_of_def draft_def splash_id_of_map)

lemma new_events_reject [simp]: "new_events (w\<lparr>reject := rej2\<rparr>) items0 = new_events w items0"
  by (simp add: new_events_def source_events_def split: sum.splits)

lemma sync_returns_object:
  assumes "sync w items0 = Some (Inr res, items1, tr)"
  shows "\<exists>res2 items2 tr2. sync (w\<lparr>reject := rej2\<rparr>) items' = Some (Inr res2, items2, tr2) \<and>
           (new_events w items' = [] \<longrightarrow> tr2 = [] \<and> items2 = items')"
proof -
  from sync_reads [OF assms] obtain fs tok es
    where r: "filter (\<lambda>key. or_empty (env (w\<lparr>reject := rej2\<rparr>) key) = []) required = []"
      "fetchCollectionSchema (schema_response (w\<lparr>reject := rej2\<rparr>)) = Inr fs"
      "getSplashAccessToken (token_response (w\<lparr>reject := rej2\<rparr>)) = Inr tok"
      "fetchSplashEvents (events_response (w\<lparr>reject := rej2\<rparr>) tok) = Inr es"
    by auto
  show ?thesis
    unfolding sync_reads_ok [OF r] by simp
qed

text \<open>A record that is still new after a run has an entry in the failure list of that run.\<close>

lemma still_new_failed:
  assumes run1: "sync w items0 = Some (Inr res1, items1, tr1)"
    and key: "''splash-id'' \<in> schema_keys w"
    and ids: "\<forall>e \<in> set (source_events w). published e = JBool True \<longrightarrow> js_String (event_id e) \<noteq> []"
    and e: "e \<in> set (new_events w items1)"
  shows "\<exists>m. (event_id e, m) \<in> set (failures res1)"
proof -
  from sync_reads [OF run1] obtain fs tok es
    where r: "filter (\<lambda>key. or_empty (env w key) = []) required = []"
      "fetchCollectionSchema (schema_response w) = Inr fs"
      "getSplashAccessToken (token_response w) = Inr tok"
      "fetchSplashEvents (events_response w tok) = Inr es"
    by blast
  let ?st = "write_loop (dates w) (schema_keys w) (reject w) (new_events w items0) (start items0)"
  note eq = run1 [unfolded sync_reads_ok [OF r]]
  from e have src: "e \<in> set (source_events w)" and pub: "published e = JBool True"
    and fresh: "JStr (js_String (event_id e)) \<notin> set (dedup_index items1)"
    by (simp_all add: new_events_def)
  from ids src pub have sid: "js_String (event_id e) \<noteq> []" by blast
  have sub: "set items0 \<subseteq> set items1"
    using eq write_loop_cover [of "start items0" "dates w" "schema_keys w" "reject w" "new_events w items0"]
    by (auto simp: start_def split: if_splits)
  then have "set (dedup_index items0) \<subseteq> set (dedup_index items1)"
    by (auto simp: set_dedup_index)
  with fresh have "JStr (js_String (event_id e)) \<notin> set (dedup_index items0)" by blast
  with src pub have new1: "e \<in> set (new_events w items0)"
    by (simp add: new_events_def)
  then have ne: "new_events w items0 \<noteq> []" by auto
  from eq ne have i1: "items1 = loop_items ?st" and f1: "failures res1 = loop_errors ?st"
    by (auto simp: failures_def)
  have "draft (mapSplashToWebflow (dates w) e (schema_keys w)) \<notin> set items1"
  proof
    assume "draft (mapSplashToWebflow (dates w) e (schema_keys w)) \<in> set items1"
    then have "JStr (js_String (event_id e)) \<in> set (dedup_index items1)"
      unfolding set_dedup_index using splash_id_of_draft [OF key, of "dates w" e] sid
      by (intro CollectI bexI [of _ "draft (mapSplashToWebflow (dates w) e (schema_keys w))"]) simp_all
    with fresh show False by contradiction
  qed
  with write_loop_cover [of "start items0" "dates w" "schema_keys w" "reject w" "new_events w items0"]
    new1 show ?thesis
    unfolding i1 f1 by blast
qed

text \<open>
  C1, as stated: a second run creates nothing.  It fails when the schema has no
  \<^verbatim>\<open>splash-id\<close> key: the created item then stores no identifier, the scan of the second
  run does not find it, and the record is created again.
\<close>

theorem idempotence_counterexample:
  "sync (test_world [''name'', ''slug''] [launch_event] accept_all) [] =
   Some (Inr (SyncResult 1 (Some []) 1),
         [draft (mapSplashToWebflow no_dates launch_event {''name'', ''slug''})],
         [Create launch_event (mapSplashToWebflow no_dates launch_event {''name'', ''slug''}) None,
          Delay 1100,
          Notify [launch_event]]) \<and>
   sync (test_world [''name'', ''slug''] [launch_event] accept_all)
     [draft (mapSplashToWebflow no_dates launch_event {''name'', ''slug''})] =
   Some (Inr (SyncResult 1 (Some []) 1),
         [draft (mapSplashToWebflow no_dates launch_event {''name'', ''slug''}),
          draft (mapSplashToWebflow no_dates launch_event {''name'', ''slug''})],
         [Create launch_event (mapSplashToWebflow no_dates launch_event {''name'', ''slug''}) None,
          Delay 1100,
          Notify [launch_event]]) \<and>
   synced (SyncResult 1 (Some []) 1) \<noteq> 0"
  using no_id_first_run no_id_second_run by simp

text \<open>
  C1, amended: let a run return its result, let the schema contain the key
  \<^verbatim>\<open>splash-id\<close>, and let no published record have an identifier whose string is empty.
  Then a second run on the collection the first one left, with the same source and
  schema (and any create policy), returns its result, and each of its write attempts is
  for a record that has an entry in the failure list of the first run.  So when the first
  run recorded no failure, the second creates nothing and leaves the collection as it
  is.
\<close>

theorem second_run_creates_nothing:
  assumes run1: "sync w items0 = Some (Inr res1, items1, tr1)"
    and key: "''splash-id'' \<in> schema_keys w"
    and ids: "\<forall>e \<in> set (source_events w). published e = JBool True \<longrightarrow> js_String (event_id e) \<noteq> []"
  shows "\<exists>res2 items2 tr2.
           sync (w\<lparr>reject := rej2\<rparr>) items1 = Some (Inr res2, items2, tr2) \<and>
           (\<forall>e \<in> set (attempts tr2). \<exists>m. (event_id e, m) \<in> set (failures res1)) \<and>
           (failures res1 = [] \<longrightarrow> synced res2 = 0 \<and> tr2 = [] \<and> items2 = items1)"
proof -
  from sync_returns_object [OF run1, of rej2 items1] obtain res2 items2 tr2
    where run2: "sync (w\<lparr>reject := rej2\<rparr>) items1 = Some (Inr res2, items2, tr2)"
      and idle: "new_events w items1 = [] \<longrightarrow> tr2 = [] \<and> items2 = items1"
    by blast
  have att: "attempts tr2 = new_events w items1"
    using sync_completed(1) [OF run2] by (simp add: attempts_def)
  have failed: "\<forall>e \<in> set (attempts tr2). \<exists>m. (event_id e, m) \<in> set (failures res1)"
    unfolding att using still_new_failed [OF run1 key ids] by blast
  have "synced res2 = 0 \<and> tr2 = [] \<and> items2 = items1" if "failures res1 = []"
  proof -
    from that failed have "attempts tr2 = []" by (cases "attempts tr2") auto
    then have n: "new_events w items1 = []" by (simp add: att)
    then have "creates tr2 = []" using att by (simp add: attempts_def)
    then have "synced res2 = 0" using sync_completed(3) [OF run2] by simp
    with idle n show ?thesis by blast
  qed
  with run2 failed show ?thesis by blast
qed

theorem second_run_creates_nothing_witness:
  "\<exists>res2. sync (test_world scenario_keys [launch_event, symbols_event] accept_all)
            [draft (mapSplashToWebflow no_dates launch_event (set scenario_keys)),
             draft (mapSplashToWebflow no_dates symbols_event (set scenario_keys))] =
          Some (Inr res2,
            [draft (mapSplashToWebflow no_dates launch_event (set scenario_keys)),
             draft (mapSplashToWebflow no_dates symbols_event (set scenario_keys))], []) \<and>
          synced res2 = 0"
proof -
  let ?w = "test_world scenario_keys [launch_event, symbols_event] accept_all"
  have key: "''splash-id'' \<in> schema_keys ?w"
    by (simp add: scenario_keys_def)
  have ids: "\<forall>e \<in> set (source_events ?w). published e = JBool True \<longrightarrow> js_String (event_id e) \<noteq> []"
    by (simp add: event_ids string_of_nat_digit)
  have same: "?w\<lparr>reject := accept_all\<rparr> = ?w"
    by (simp add: test_world_def)
  from second_run_creates_nothing [OF first_run key ids, of accept_all]
  show ?thesis
    unfolding same by (auto simp: failures_def)
qed

end
